theory Spec2Isabelle
  imports Complex_Main "HOL-Library.Sublist"
begin

section \<open>Data model (webapp/src/types/index.ts)\<close>

text \<open>
  JavaScript numbers are IEEE-754 doubles. Identifiers and counters (ids, streaks,
  completion counts) are integer-valued doubles and are held as \<open>int\<close>; the store adds to
  them with the addition of doubles (\<open>add_double\<close>), which is exact only while the sum
  is below \<open>2 ^ 53\<close> in magnitude. Payload numbers that may be fractional (rates,
  percentages) are \<open>rat\<close>; the store never computes with them. The division and the
  multiplication in \<open>getTodayProgress\<close> are rounded to doubles as well.

  An optional property \<open>p?: T\<close> is a \<open>T option\<close>. Where two interfaces share a property
  name, the later record carries a short prefix.
\<close>

record Habit =
  id_h :: int
  name :: string
  description :: "string option"
  emoji :: string
  reminder_time :: "string option"
  frequency :: string
  target_days :: int
  is_active :: bool
  current_streak :: int
  best_streak :: int
  total_completions :: int
  progress_percentage :: rat
  is_completed_today :: bool
  created_at :: string

datatype Theme = light | dark | system

record UserSettings =
  ai_enabled :: bool
  notification_enabled :: bool
  timezone :: string
  theme :: Theme

record UserStats =
  us_total_habits :: int
  us_active_habits :: int
  us_total_completions :: int
  us_best_streak :: int
  us_current_streak :: int
  completion_rate_7d :: rat
  completion_rate_30d :: rat

record User =
  id_u :: int
  first_name :: string
  last_name :: "string option"
  username :: "string option"
  settings :: UserSettings
  stats :: UserStats
  u_created_at :: string
  last_active :: "string option"

record WeeklySummary =
  week_start :: string
  week_end :: string
  total_habits :: int
  completed_count :: int
  skipped_count :: int
  ws_best_streak :: int
  completion_rate :: rat
  ai_summary :: string
  motivational_message :: string
  tips :: "string list"
  generated_at :: string
  is_cached :: bool
  share_text :: string

record FailurePattern =
  day_of_week :: string
  time_of_day :: "string option"
  reason :: "string option"
  fp_frequency :: int

datatype Difficulty = easy | medium | hard

record Strategy =
  title :: string
  st_description :: string
  action_steps :: "string list"
  difficulty :: Difficulty
  estimated_effectiveness :: rat

record FailureAnalysis =
  habit_id :: "int option"
  habit_name :: "string option"
  failure_count :: int
  failure_rate :: rat
  common_patterns :: "FailurePattern list"
  skip_reasons :: "string list"
  empathetic_message :: string
  root_causes :: "string list"
  strategies :: "Strategy list"
  fa_generated_at :: string
  fa_is_cached :: bool

record DayProgress =
  date :: string
  completed :: int
  total :: int
  percentage :: rat

record WeeklyProgress =
  wp_week_start :: string
  wp_week_end :: string
  days :: "DayProgress list"
  total_completed :: int
  wp_total_habits :: int
  average_percentage :: rat

text \<open>
  \<open>Partial<Habit>\<close>: every property may be absent (\<open>None\<close>). For a property that is
  already optional in \<open>Habit\<close>, a present key may still carry \<open>undefined\<close>
  (\<open>Some None\<close>).
\<close>

record HabitUpdates =
  upd_id :: "int option"
  upd_name :: "string option"
  upd_description :: "string option option"
  upd_emoji :: "string option"
  upd_reminder_time :: "string option option"
  upd_frequency :: "string option"
  upd_target_days :: "int option"
  upd_is_active :: "bool option"
  upd_current_streak :: "int option"
  upd_best_streak :: "int option"
  upd_total_completions :: "int option"
  upd_progress_percentage :: "rat option"
  upd_is_completed_today :: "bool option"
  upd_created_at :: "string option"

text \<open>The object spread \<open>{ ...h, ...updates }\<close>: a key of \<open>updates\<close> overrides \<open>h\<close>.\<close>

definition spread :: "Habit \<Rightarrow> HabitUpdates \<Rightarrow> Habit" where
  "spread h u =
     \<lparr> id_h = (case upd_id u of None \<Rightarrow> id_h h | Some v \<Rightarrow> v),
       name = (case upd_name u of None \<Rightarrow> name h | Some v \<Rightarrow> v),
       description = (case upd_description u of None \<Rightarrow> description h | Some v \<Rightarrow> v),
       emoji = (case upd_emoji u of None \<Rightarrow> emoji h | Some v \<Rightarrow> v),
       reminder_time = (case upd_reminder_time u of None \<Rightarrow> reminder_time h | Some v \<Rightarrow> v),
       frequency = (case upd_frequency u of None \<Rightarrow> frequency h | Some v \<Rightarrow> v),
       target_days = (case upd_target_days u of None \<Rightarrow> target_days h | Some v \<Rightarrow> v),
       is_active = (case upd_is_active u of None \<Rightarrow> is_active h | Some v \<Rightarrow> v),
       current_streak = (case upd_current_streak u of None \<Rightarrow> current_streak h | Some v \<Rightarrow> v),
       best_streak = (case upd_best_streak u of None \<Rightarrow> best_streak h | Some v \<Rightarrow> v),
       total_completions =
         (case upd_total_completions u of None \<Rightarrow> total_completions h | Some v \<Rightarrow> v),
       progress_percentage =
         (case upd_progress_percentage u of None \<Rightarrow> progress_percentage h | Some v \<Rightarrow> v),
       is_completed_today =
         (case upd_is_completed_today u of None \<Rightarrow> is_completed_today h | Some v \<Rightarrow> v),
       created_at = (case upd_created_at u of None \<Rightarrow> created_at h | Some v \<Rightarrow> v) \<rparr>"

section \<open>Numbers\<close>

text \<open>
  Every arithmetic operation of the store is an operation on doubles: it returns the
  exact result rounded to the nearest binary64 value, ties to the even significand. A
  finite double is represented by its exact value, a rational number, and \<open>round_double\<close>
  is the rounding: for \<open>2 ^ e \<le> \<bar>x\<bar> < 2 ^ (e + 1)\<close> the doubles around \<open>x\<close> are the
  multiples of \<open>2 ^ (e - 52)\<close>. Overflow and subnormal numbers are not modelled: the
  counters are integers, and the values of \<open>getTodayProgress\<close> lie between \<open>2 ^ -32\<close> and
  100, or are 0.
\<close>

fun bit_length :: "nat \<Rightarrow> nat" where
  "bit_length n = (if n = 0 then 0 else Suc (bit_length (n div 2)))"

declare bit_length.simps [simp del]

text \<open>The exponent \<open>e\<close> with \<open>2 ^ e \<le> x < 2 ^ (e + 1)\<close>, for \<open>x > 0\<close>.\<close>

definition ilog2 :: "rat \<Rightarrow> int" where
  "ilog2 x =
     (if 1 \<le> x then int (bit_length (nat \<lfloor>x\<rfloor>)) - 1
      else - int (bit_length (nat (\<lceil>1 / x\<rceil> - 1))))"

definition pow2 :: "int \<Rightarrow> rat" where
  "pow2 k = (if 0 \<le> k then 2 ^ nat k else 1 / 2 ^ nat (- k))"

text \<open>Rounding to the nearest integer, a tie to the even one.\<close>

definition rne :: "rat \<Rightarrow> int" where
  "rne x =
     (let f = \<lfloor>x\<rfloor>; r = x - of_int f
      in if r < 1 / 2 then f
         else if 1 / 2 < r then f + 1
         else if even f then f else f + 1)"

definition round_double :: "rat \<Rightarrow> rat" where
  "round_double x =
     (if x = 0 then 0
      else let u = pow2 (ilog2 \<bar>x\<bar> - 52)
           in sgn x * of_int (rne (\<bar>x\<bar> / u)) * u)"

text \<open>
  The sum \<open>a + b\<close> of two integer-valued doubles, as in \<open>h.total_completions + 1\<close>: the
  exact sum rounded to a double. The rounded value of an integer is an integer again
  (\<open>round_double_of_int_integral\<close> below), which the floor reads off.
\<close>

definition add_double :: "int \<Rightarrow> int \<Rightarrow> int" where
  "add_double a b = \<lfloor>round_double (of_int a + of_int b)\<rfloor>"

text \<open>\<open>Number.isSafeInteger\<close>: an integer of magnitude at most \<open>2 ^ 53 - 1\<close>.\<close>

definition isSafeInteger :: "int \<Rightarrow> bool" where
  "isSafeInteger n = (\<bar>n\<bar> \<le> 2 ^ 53 - 1)"

section \<open>The store (webapp/src/store/useHabitStore.ts)\<close>

record HabitState =
  habits :: "Habit list"
  user :: "User option"
  weeklySummary :: "WeeklySummary option"
  failureAnalysis :: "FailureAnalysis option"
  weeklyProgress :: "WeeklyProgress option"
  isLoading :: bool
  error :: "string option"
  selectedHabitId :: "int option"

text \<open>The initial state of the store creator (lines 43 to 50).\<close>

definition initial_state :: HabitState where
  "initial_state =
     \<lparr> habits = [], user = None, weeklySummary = None, failureAnalysis = None,
       weeklyProgress = None, isLoading = False, error = None, selectedHabitId = None \<rparr>"

subsection \<open>Actions\<close>

text \<open>
  Every action is \<open>set(partial)\<close> or \<open>set(state => partial)\<close>: the partial object is
  merged into the current state, so an action is a function from the state to the next
  state. The actions return \<open>void\<close> and contain no \<open>throw\<close>; the model has no error
  value because the source has none.
\<close>

definition setHabits :: "Habit list \<Rightarrow> HabitState \<Rightarrow> HabitState" where
  "setHabits hs s = s\<lparr>habits := hs\<rparr>"

definition addHabit :: "Habit \<Rightarrow> HabitState \<Rightarrow> HabitState" where
  "addHabit habit s = s\<lparr>habits := habits s @ [habit]\<rparr>"

definition updateHabit :: "int \<Rightarrow> HabitUpdates \<Rightarrow> HabitState \<Rightarrow> HabitState" where
  "updateHabit i updates s =
     s\<lparr>habits := map (\<lambda>h. if id_h h = i then spread h updates else h) (habits s)\<rparr>"

definition removeHabit :: "int \<Rightarrow> HabitState \<Rightarrow> HabitState" where
  "removeHabit i s = s\<lparr>habits := filter (\<lambda>h. id_h h \<noteq> i) (habits s)\<rparr>"

definition completeHabit :: "int \<Rightarrow> HabitState \<Rightarrow> HabitState" where
  "completeHabit i s =
     s\<lparr>habits :=
         map (\<lambda>h. if id_h h = i
                  then h\<lparr>is_completed_today := True,
                         total_completions := add_double (total_completions h) 1,
                         current_streak := add_double (current_streak h) 1\<rparr>
                  else h)
             (habits s)\<rparr>"

definition setUser :: "User \<Rightarrow> HabitState \<Rightarrow> HabitState" where
  "setUser u s = s\<lparr>user := Some u\<rparr>"

definition setWeeklySummary :: "WeeklySummary \<Rightarrow> HabitState \<Rightarrow> HabitState" where
  "setWeeklySummary summary s = s\<lparr>weeklySummary := Some summary\<rparr>"

definition setFailureAnalysis :: "FailureAnalysis \<Rightarrow> HabitState \<Rightarrow> HabitState" where
  "setFailureAnalysis analysis s = s\<lparr>failureAnalysis := Some analysis\<rparr>"

definition setWeeklyProgress :: "WeeklyProgress \<Rightarrow> HabitState \<Rightarrow> HabitState" where
  "setWeeklyProgress progress s = s\<lparr>weeklyProgress := Some progress\<rparr>"

definition setLoading :: "bool \<Rightarrow> HabitState \<Rightarrow> HabitState" where
  "setLoading b s = s\<lparr>isLoading := b\<rparr>"

definition setError :: "string option \<Rightarrow> HabitState \<Rightarrow> HabitState" where
  "setError e s = s\<lparr>error := e\<rparr>"

definition selectHabit :: "int option \<Rightarrow> HabitState \<Rightarrow> HabitState" where
  "selectHabit i s = s\<lparr>selectedHabitId := i\<rparr>"

subsection \<open>Derived queries\<close>

definition getCompletedToday :: "HabitState \<Rightarrow> nat" where
  "getCompletedToday s = length (filter is_completed_today (habits s))"

text \<open>
  \<open>Math.round\<close> returns the integer closest to its argument, and of two equally close
  integers the one towards \<open>+\<infinity>\<close>.
\<close>

definition Math_round :: "rat \<Rightarrow> int" where
  "Math_round x = \<lfloor>x + 1 / 2\<rfloor>"

text \<open>
  Lines 91 to 96. The array lengths are integers below \<open>2 ^ 32\<close> and exact as doubles;
  the guard on the empty collection precedes the division, and the division and the
  multiplication by 100 are each rounded to a double.
\<close>

definition getTodayProgress :: "HabitState \<Rightarrow> int" where
  "getTodayProgress s =
     (let hs = habits s
      in if length hs = 0 then 0
         else let completed = length (filter is_completed_today hs)
              in Math_round
                   (round_double (round_double (of_nat completed / of_nat (length hs)) * 100)))"

text \<open>
  The specification's words for the same query: the rounded value of 100 times the count
  of completed habits over the total count, and 0 for the empty collection.
\<close>

definition todayProgress_spec :: "HabitState \<Rightarrow> int" where
  "todayProgress_spec s =
     (if habits s = [] then 0
      else round (100 * rat_of_nat (length (filter is_completed_today (habits s)))
                    / rat_of_nat (length (habits s))))"

text \<open>
  \<open>Math.min(...xs)\<close> and \<open>Math.max(...xs)\<close> start from \<open>+Infinity\<close> and \<open>-Infinity\<close>
  and compare each argument in turn; with no argument they return the infinity. The
  result type therefore has the two infinities beside the integers.
\<close>

datatype number = Fin int | PosInfinity | NegInfinity

fun min_number :: "number \<Rightarrow> number \<Rightarrow> number" where
  "min_number NegInfinity _ = NegInfinity"
| "min_number _ NegInfinity = NegInfinity"
| "min_number PosInfinity y = y"
| "min_number x PosInfinity = x"
| "min_number (Fin a) (Fin b) = Fin (min a b)"

fun max_number :: "number \<Rightarrow> number \<Rightarrow> number" where
  "max_number PosInfinity _ = PosInfinity"
| "max_number _ PosInfinity = PosInfinity"
| "max_number NegInfinity y = y"
| "max_number x NegInfinity = x"
| "max_number (Fin a) (Fin b) = Fin (max a b)"

definition Math_min :: "int list \<Rightarrow> number" where
  "Math_min xs = fold (\<lambda>x acc. min_number acc (Fin x)) xs PosInfinity"

definition Math_max :: "int list \<Rightarrow> number" where
  "Math_max xs = fold (\<lambda>x acc. max_number acc (Fin x)) xs NegInfinity"

record StreakData =
  current :: number
  best :: number

definition getStreakData :: "HabitState \<Rightarrow> StreakData" where
  "getStreakData s =
     (let hs = habits s;
          c = (if length hs > 0 then Math_min (map current_streak hs) else Fin 0);
          b = (if length hs > 0 then Math_max (map best_streak hs) else Fin 0)
      in \<lparr> current = c, best = b \<rparr>)"

subsection \<open>Persistence\<close>

text \<open>The \<open>partialize\<close> option of the persist middleware (lines 113 to 119).\<close>

record Persisted =
  p_user :: "User option"
  p_habits :: "Habit list"

definition partialize :: "HabitState \<Rightarrow> Persisted" where
  "partialize s = \<lparr> p_user = user s, p_habits = habits s \<rparr>"

definition storage_name :: string where
  "storage_name = ''habitmax-storage''"

text \<open>
  The persist middleware itself (zustand/middleware) is not part of the sources; writing
  and reading the slot follow the persistence contract of the specification. The slot
  holds the snapshot as a value; its JSON text is not modelled.
\<close>

type_synonym storage = "string \<rightharpoonup> Persisted"

text \<open>
  Modelled from the spec: the write of the persist middleware, which is not in the
  sources. On a mutation the subset chosen by \<open>partialize\<close> is put into the slot under the
  fixed key.
\<close>

definition persist_write :: "HabitState \<Rightarrow> storage \<Rightarrow> storage" where
  "persist_write s st = st(storage_name \<mapsto> partialize s)"

text \<open>
  Modelled from the spec: the read of the persist middleware at process start, which is
  not in the sources. The slot, if present, is read back over the initial state.
\<close>

definition rehydrate :: "storage \<Rightarrow> HabitState" where
  "rehydrate st =
     (case st storage_name of
        None \<Rightarrow> initial_state
      | Some p \<Rightarrow> initial_state\<lparr>user := p_user p, habits := p_habits p\<rparr>)"

section \<open>Sample data\<close>

text \<open>
  A fresh habit as in the scenario of the specification (all counters zero, not completed
  today), an empty update, a renaming update, and a store holding two habits of the same
  id, reached by two \<open>addHabit\<close> calls.
\<close>

definition sample_habit :: "int \<Rightarrow> string \<Rightarrow> Habit" where
  "sample_habit i n =
     \<lparr> id_h = i, name = n, description = None, emoji = ''*'', reminder_time = None,
       frequency = ''daily'', target_days = 7, is_active = True, current_streak = 0,
       best_streak = 0, total_completions = 0, progress_percentage = 0,
       is_completed_today = False, created_at = ''2024-01-01'' \<rparr>"

definition no_updates :: HabitUpdates where
  "no_updates =
     \<lparr> upd_id = None, upd_name = None, upd_description = None, upd_emoji = None,
       upd_reminder_time = None, upd_frequency = None, upd_target_days = None,
       upd_is_active = None, upd_current_streak = None, upd_best_streak = None,
       upd_total_completions = None, upd_progress_percentage = None,
       upd_is_completed_today = None, upd_created_at = None \<rparr>"

definition rename :: "string \<Rightarrow> HabitUpdates" where
  "rename n = no_updates\<lparr>upd_name := Some n\<rparr>"

definition one_state :: HabitState where
  "one_state = setHabits [sample_habit 1 ''Read''] initial_state"

definition dup_state :: HabitState where
  "dup_state = addHabit (sample_habit 1 ''Run'') (addHabit (sample_habit 1 ''Read'') initial_state)"

definition streak_state :: HabitState where
  "streak_state =
     setHabits [(sample_habit 1 ''Read'')\<lparr>current_streak := 3, best_streak := 7\<rparr>,
                (sample_habit 2 ''Run'')\<lparr>current_streak := 5, best_streak := 4\<rparr>]
       initial_state"

text \<open>Forty habits with ids 1 to 40, of which the first 23 are completed today.\<close>

definition forty_state :: HabitState where
  "forty_state =
     setHabits
       (map (\<lambda>i. (sample_habit (int i) ''Habit'')\<lparr>is_completed_today := (i \<le> 23)\<rparr>) [1..<41])
       initial_state"

section \<open>Verified properties\<close>

subsection \<open>Binary64 rounding\<close>

text \<open>
  The rounding of a non-negative value to a double moves it by at most the fraction
  \<open>2 ^ -53\<close> of the value: the spacing of the doubles around \<open>x\<close> is
  \<open>2 ^ (ilog2 x - 52) \<le> x / 2 ^ 52\<close>, and the nearest one is at most half a spacing away.
\<close>

lemma bit_length_upper: "n < 2 ^ bit_length n"
proof (induction n rule: bit_length.induct)
  case (1 n)
  show ?case
  proof (cases "n = 0")
    case True
    then show ?thesis by (simp add: bit_length.simps)
  next
    case False
    then have "n div 2 < 2 ^ bit_length (n div 2)" using 1 by simp
    then have "n < 2 * 2 ^ bit_length (n div 2)" by linarith
    then show ?thesis using False by (simp add: bit_length.simps [of n])
  qed
qed

lemma bit_length_lower: "0 < n \<Longrightarrow> 2 ^ (bit_length n - 1) \<le> n"
proof (induction n rule: bit_length.induct)
  case (1 n)
  show ?case
  proof (cases "n div 2 = 0")
    case True
    then have "n = 1" using 1(2) by linarith
    then show ?thesis by (simp add: bit_length.simps)
  next
    case False
    then have ih: "2 ^ (bit_length (n div 2) - 1) \<le> n div 2" using 1 by simp
    have pos: "0 < bit_length (n div 2)" using False by (simp add: bit_length.simps [of "n div 2"])
    have "bit_length n - 1 = Suc (bit_length (n div 2) - 1)"
      using 1(2) pos by (simp add: bit_length.simps [of n])
    then have "(2::nat) ^ (bit_length n - 1) = 2 * 2 ^ (bit_length (n div 2) - 1)" by simp
    also have "\<dots> \<le> 2 * (n div 2)" using ih by simp
    also have "\<dots> \<le> n" by simp
    finally show ?thesis .
  qed
qed

lemma bit_length_pos: "0 < n \<Longrightarrow> 0 < bit_length n"
  by (simp add: bit_length.simps [of n])

lemma pow2_pos: "0 < pow2 k"
  by (simp add: pow2_def)

lemma pow2_add_nat: "pow2 (k - int n) * 2 ^ n = pow2 k"
proof -
  consider "int n \<le> k" | "0 \<le> k" "k < int n" | "k < 0" by linarith
  then show ?thesis
  proof cases
    case 1
    then have "nat k = nat (k - int n) + n" by simp
    then have "(2::rat) ^ nat k = 2 ^ nat (k - int n) * 2 ^ n" by (simp only: power_add)
    then show ?thesis using 1 by (simp add: pow2_def)
  next
    case 2
    then have "n = nat (int n - k) + nat k" by simp
    then have "(2::rat) ^ n = 2 ^ nat (int n - k) * 2 ^ nat k" by (metis power_add)
    then show ?thesis using 2 by (simp add: pow2_def)
  next
    case 3
    then have "nat (int n - k) = nat (- k) + n" by simp
    then have "(2::rat) ^ nat (int n - k) = 2 ^ nat (- k) * 2 ^ n" by (simp only: power_add)
    then show ?thesis using 3 by (simp add: pow2_def)
  qed
qed

lemma pow2_shift: "pow2 (k - 52) = pow2 k / 2 ^ 52"
proof -
  have "pow2 (k - int 52) * 2 ^ 52 = pow2 k" by (rule pow2_add_nat)
  then have "pow2 (k - 52) * 2 ^ 52 = pow2 k" by simp
  then show ?thesis by (simp add: field_simps)
qed

lemma ilog2_lower:
  assumes "0 < x"
  shows "pow2 (ilog2 x) \<le> x"
proof (cases "1 \<le> x")
  case True
  define m where "m = nat \<lfloor>x\<rfloor>"
  have m: "0 < m" "rat_of_nat m \<le> x"
    using True by (simp_all add: m_def le_floor_iff)
  have "ilog2 x = int (bit_length m - 1)"
    using True bit_length_pos [OF m(1)] by (simp add: ilog2_def m_def)
  then have "pow2 (ilog2 x) = 2 ^ (bit_length m - 1)" by (simp add: pow2_def)
  also have "\<dots> = rat_of_nat (2 ^ (bit_length m - 1))" by simp
  also have "\<dots> \<le> rat_of_nat m" using bit_length_lower [OF m(1)] by (simp only: of_nat_le_iff)
  finally show ?thesis using m(2) by simp
next
  case False
  define m where "m = nat (\<lceil>1 / x\<rceil> - 1)"
  have "1 / x \<le> of_int \<lceil>1 / x\<rceil>" by simp
  moreover have "0 < \<lceil>1 / x\<rceil>" using assms by simp
  ultimately have "1 / x \<le> rat_of_nat (m + 1)" by (simp add: m_def)
  also have "\<dots> \<le> rat_of_nat (2 ^ bit_length m)"
  proof -
    have "m + 1 \<le> 2 ^ bit_length m" using bit_length_upper [of m] by simp
    then show ?thesis by (simp only: of_nat_le_iff)
  qed
  finally have le: "1 / x \<le> 2 ^ bit_length m" by simp
  have "1 / 2 ^ bit_length m \<le> x"
  proof -
    have "1 \<le> 2 ^ bit_length m * x" using le assms by (simp add: field_simps)
    then show ?thesis by (simp add: field_simps)
  qed
  moreover have "pow2 (ilog2 x) = 1 / 2 ^ bit_length m"
    using False by (simp add: ilog2_def pow2_def m_def)
  ultimately show ?thesis by simp
qed

lemma rne_error: "\<bar>of_int (rne t) - t\<bar> \<le> 1 / 2"
proof -
  define f where "f = \<lfloor>t\<rfloor>"
  define r where "r = t - of_int f"
  have r: "0 \<le> r" "r < 1" unfolding r_def f_def by linarith+
  have t: "t = of_int f + r" by (simp add: r_def)
  have "rne t = f \<and> r \<le> 1 / 2 \<or> rne t = f + 1 \<and> 1 / 2 \<le> r"
    unfolding rne_def Let_def f_def [symmetric] r_def [symmetric] by auto
  then show ?thesis using r unfolding t by auto
qed

lemma round_double_error:
  assumes "0 \<le> x"
  shows "\<bar>round_double x - x\<bar> \<le> x / 2 ^ 53"
proof (cases "x = 0")
  case True
  then show ?thesis by (simp add: round_double_def)
next
  case False
  then have pos: "0 < x" using assms by simp
  define u where "u = pow2 (ilog2 x - 52)"
  have u: "0 < u" "u \<le> x / 2 ^ 52"
    using ilog2_lower [OF pos] by (simp_all add: u_def pow2_pos pow2_shift divide_right_mono)
  have rd: "round_double x = of_int (rne (x / u)) * u"
    using pos by (simp add: round_double_def u_def Let_def)
  have "round_double x - x = (of_int (rne (x / u)) - x / u) * u"
    using u(1) by (simp add: rd field_simps)
  then have "\<bar>round_double x - x\<bar> = \<bar>of_int (rne (x / u)) - x / u\<bar> * u"
    using u(1) by (simp add: abs_mult)
  also have "\<dots> \<le> (1 / 2) * u"
    using rne_error [of "x / u"] u(1) by (intro mult_right_mono) simp_all
  also have "\<dots> \<le> (1 / 2) * (x / 2 ^ 52)" using u(2) by simp
  finally show ?thesis by simp
qed

text \<open>
  \<open>ilog2\<close> is the binary exponent: \<open>x\<close> lies below the next power of two as well.
\<close>

lemma pow2_Suc: "pow2 (k + 1) = 2 * pow2 k"
proof -
  have "pow2 ((k + 1) - int 1) * 2 ^ 1 = pow2 (k + 1)" by (rule pow2_add_nat)
  then show ?thesis by simp
qed

lemma pow2_neg_nat: "pow2 (- int j) = 1 / 2 ^ j"
proof (cases "j = 0")
  case True
  then show ?thesis by (simp add: pow2_def)
next
  case False
  then have "\<not> 0 \<le> - int j" by simp
  moreover have "nat (- (- int j)) = j" by simp
  ultimately show ?thesis by (simp only: pow2_def if_False)
qed

lemma ilog2_upper:
  assumes "0 < x"
  shows "x < pow2 (ilog2 x + 1)"
proof (cases "1 \<le> x")
  case True
  define m where "m = nat \<lfloor>x\<rfloor>"
  have m: "0 < m" using True by (simp add: m_def)
  have "x < of_int (\<lfloor>x\<rfloor> + 1)" by linarith
  also have "\<dots> = rat_of_nat (m + 1)" using True by (simp add: m_def)
  also have "\<dots> \<le> rat_of_nat (2 ^ bit_length m)"
  proof -
    have "m + 1 \<le> 2 ^ bit_length m" using bit_length_upper [of m] by simp
    then show ?thesis by (simp only: of_nat_le_iff)
  qed
  finally have "x < 2 ^ bit_length m" by simp
  moreover have "ilog2 x + 1 = int (bit_length m)"
    using True by (simp add: ilog2_def m_def)
  ultimately show ?thesis by (simp add: pow2_def)
next
  case False
  define m where "m = nat (\<lceil>1 / x\<rceil> - 1)"
  have x1: "1 < 1 / x" using False assms by simp
  then have c2: "2 \<le> \<lceil>1 / x\<rceil>" by (simp add: less_ceiling_iff)
  then have m: "0 < m" by (simp add: m_def)
  have "rat_of_int (\<lceil>1 / x\<rceil> - 1) < 1 / x" by linarith
  then have lt: "rat_of_nat m < 1 / x" using c2 by (simp add: m_def)
  have "rat_of_nat (2 ^ (bit_length m - 1)) \<le> rat_of_nat m"
    using bit_length_lower [OF m] by (simp only: of_nat_le_iff)
  then have "rat_of_nat (2 ^ (bit_length m - 1)) < 1 / x" using lt by (rule le_less_trans)
  then have "2 ^ (bit_length m - 1) < 1 / x" by simp
  then have "x * 2 ^ (bit_length m - 1) < 1" using assms by (simp add: field_simps)
  then have up: "x < 1 / 2 ^ (bit_length m - 1)" by (simp add: field_simps)
  have "ilog2 x + 1 = - int (bit_length m - 1)"
    using False bit_length_pos [OF m] by (simp add: ilog2_def m_def)
  then have "pow2 (ilog2 x + 1) = 1 / 2 ^ (bit_length m - 1)"
    by (simp only: pow2_neg_nat)
  then show ?thesis using up by simp
qed

lemma rne_mono_int:
  "of_int m \<le> t \<Longrightarrow> m \<le> rne t" "t \<le> of_int m \<Longrightarrow> rne t \<le> m"
proof -
  define f where "f = \<lfloor>t\<rfloor>"
  define r where "r = t - of_int f"
  have r: "0 \<le> r" "r < 1" unfolding r_def f_def by linarith+
  have cases: "rne t = f \<or> rne t = f + 1 \<and> 0 < r"
    unfolding rne_def Let_def f_def [symmetric] r_def [symmetric] by auto
  { assume "of_int m \<le> t"
    then have "m \<le> f" unfolding f_def by (simp add: le_floor_iff)
    then show "m \<le> rne t" using cases by auto }
  { assume le: "t \<le> of_int m"
    have "\<lfloor>t\<rfloor> \<le> \<lfloor>rat_of_int m\<rfloor>" using le by (rule floor_mono)
    then have "f \<le> m" unfolding f_def by simp
    moreover have "0 < r \<Longrightarrow> f < m"
    proof -
      assume "0 < r"
      then have "rat_of_int f < of_int m" using le by (simp add: r_def)
      then show "f < m" by simp
    qed
    ultimately show "rne t \<le> m" using cases by auto }
qed

text \<open>
  Hence the rounded value is a double: an integer significand between \<open>2 ^ 52\<close> and
  \<open>2 ^ 53\<close> times the power of two \<open>2 ^ (ilog2 x - 52)\<close>.
\<close>

lemma round_double_significand:
  assumes "0 < x"
  shows "2 ^ 52 \<le> rne (x / pow2 (ilog2 x - 52))" and "rne (x / pow2 (ilog2 x - 52)) \<le> 2 ^ 53"
proof -
  define u where "u = pow2 (ilog2 x - 52)"
  have u: "0 < u" by (simp add: u_def pow2_pos)
  have lo: "pow2 (ilog2 x) = u * 2 ^ 52" by (simp add: u_def pow2_shift)
  have hi: "pow2 (ilog2 x + 1) = u * 2 ^ 53" by (simp add: pow2_Suc lo)
  have "u * 2 ^ 52 \<le> x" using ilog2_lower [OF assms] lo by simp
  then have "2 ^ 52 \<le> x / u" using u by (simp add: field_simps)
  then have "rat_of_int (2 ^ 52) \<le> x / u" by simp
  then show "2 ^ 52 \<le> rne (x / pow2 (ilog2 x - 52))"
    unfolding u_def [symmetric] by (rule rne_mono_int(1))
  have "x < u * 2 ^ 53" using ilog2_upper [OF assms] hi by simp
  then have "x / u \<le> 2 ^ 53" using u by (simp add: field_simps)
  then have "x / u \<le> rat_of_int (2 ^ 53)" by simp
  then show "rne (x / pow2 (ilog2 x - 52)) \<le> 2 ^ 53"
    unfolding u_def [symmetric] by (rule rne_mono_int(2))
qed

lemma pow2_mono:
  assumes "a \<le> b"
  shows "pow2 a \<le> pow2 b"
proof -
  define n where "n = nat (b - a)"
  have "pow2 (b - int n) * 2 ^ n = pow2 b" by (rule pow2_add_nat)
  moreover have "b - int n = a" using assms by (simp add: n_def)
  ultimately have eq: "pow2 b = pow2 a * 2 ^ n" by simp
  have "(1::rat) \<le> 2 ^ n" by simp
  then have "pow2 a * 1 \<le> pow2 a * 2 ^ n"
    using pow2_pos [of a] by (intro mult_left_mono) simp_all
  then show ?thesis using eq by simp
qed

lemma rne_of_int: "rne (of_int m) = m"
  by (simp add: rne_def)

lemma round_double_pos:
  assumes "0 < x"
  shows "round_double x = of_int (rne (x / pow2 (ilog2 x - 52))) * pow2 (ilog2 x - 52)"
  using assms by (simp add: round_double_def Let_def)

lemma round_double_minus: "round_double (- x) = - round_double x"
  by (simp add: round_double_def Let_def sgn_minus)

text \<open>A positive integer rounds to an integer, and to itself while it is below \<open>2 ^ 53\<close>.\<close>

lemma round_double_of_nat_pos:
  fixes m :: int
  assumes "0 < m"
  shows "\<exists>r::int. round_double (of_int m) = of_int r"
    and "m < 2 ^ 53 \<Longrightarrow> round_double (of_int m) = of_int m"
proof -
  define x where "x = rat_of_int m"
  define k where "k = ilog2 x - 52"
  have x: "0 < x" using assms by (simp add: x_def)
  have rd: "round_double x = of_int (rne (x / pow2 k)) * pow2 k"
    unfolding k_def by (rule round_double_pos [OF x])
  have small: "round_double x = x" if "k \<le> 0"
  proof -
    define n where "n = nat (- k)"
    have "pow2 (- int n) = 1 / 2 ^ n" by (rule pow2_neg_nat)
    moreover have "- int n = k" using that by (simp add: n_def)
    ultimately have u: "pow2 k = 1 / 2 ^ n" by simp
    have "x / pow2 k = of_int (m * 2 ^ n)" by (simp add: u x_def)
    then have "rne (x / pow2 k) = m * 2 ^ n" by (simp only: rne_of_int)
    then have "round_double x = of_int (m * 2 ^ n) * (1 / 2 ^ n)" by (simp only: rd u)
    also have "\<dots> = x" by (simp add: x_def)
    finally show ?thesis .
  qed
  show "\<exists>r::int. round_double (of_int m) = of_int r"
  proof (cases "k \<le> 0")
    case True
    then show ?thesis using small unfolding x_def by blast
  next
    case False
    then have "pow2 k = of_int (2 ^ nat k)" by (simp add: pow2_def)
    then have "round_double x = of_int (rne (x / pow2 k) * 2 ^ nat k)" by (simp add: rd)
    then show ?thesis unfolding x_def by blast
  qed
  assume lt: "m < 2 ^ 53"
  have "k \<le> 0"
  proof (rule ccontr)
    assume "\<not> k \<le> 0"
    then have "53 \<le> ilog2 x" by (simp add: k_def)
    then have "pow2 53 \<le> pow2 (ilog2 x)" by (rule pow2_mono)
    also have "\<dots> \<le> x" by (rule ilog2_lower [OF x])
    finally have "rat_of_int (2 ^ 53) \<le> rat_of_int m" by (simp add: pow2_def x_def)
    then have "2 ^ 53 \<le> m" by (simp only: of_int_le_iff)
    then show False using lt by simp
  qed
  then show "round_double (of_int m) = of_int m" using small unfolding x_def by simp
qed

lemma round_double_of_int_integral: "\<exists>r::int. round_double (of_int m) = of_int r"
proof -
  consider "m = 0" | "0 < m" | "0 < - m" by linarith
  then show ?thesis
  proof cases
    case 1
    then have "round_double (of_int m) = of_int 0" by (simp add: round_double_def)
    then show ?thesis by blast
  next
    case 2
    then show ?thesis by (rule round_double_of_nat_pos(1))
  next
    case 3
    then obtain r :: int where "round_double (of_int (- m)) = of_int r"
      using round_double_of_nat_pos(1) by blast
    then have "round_double (of_int m) = of_int (- r)"
      using round_double_minus [of "of_int (- m)"] by simp
    then show ?thesis by blast
  qed
qed

lemma round_double_of_int_exact:
  assumes "\<bar>m\<bar> < 2 ^ 53"
  shows "round_double (of_int m) = of_int m"
proof -
  consider "m = 0" | "0 < m" | "0 < - m" by linarith
  then show ?thesis
  proof cases
    case 1
    then show ?thesis by (simp add: round_double_def)
  next
    case 2
    then show ?thesis using assms by (intro round_double_of_nat_pos(2)) simp_all
  next
    case 3
    then have "round_double (of_int (- m)) = of_int (- m)"
      using assms by (intro round_double_of_nat_pos(2)) simp_all
    then show ?thesis using round_double_minus [of "of_int (- m)"] by simp
  qed
qed

text \<open>The floor in \<open>add_double\<close> loses nothing, and a safe sum is exact.\<close>

lemma add_double_value: "of_int (add_double a b) = round_double (of_int a + of_int b)"
proof -
  obtain r :: int where r: "round_double (of_int (a + b)) = of_int r"
    using round_double_of_int_integral by blast
  then show ?thesis by (simp add: add_double_def)
qed

lemma add_double_exact:
  assumes "isSafeInteger (a + b)"
  shows "add_double a b = a + b"
proof -
  have "\<bar>a + b\<bar> < 2 ^ 53" using assms by (simp add: isSafeInteger_def)
  then have "round_double (of_int (a + b)) = of_int (a + b)" by (rule round_double_of_int_exact)
  then show ?thesis by (simp add: add_double_def)
qed

text \<open>
  Beyond the safe integers the addition stops counting: \<open>2 ^ 53 + 1\<close> lies halfway
  between the doubles \<open>2 ^ 53\<close> and \<open>2 ^ 53 + 2\<close> and rounds to the even one.
\<close>

lemma ilog2_unique:
  assumes "0 < x" and "pow2 e \<le> x" and "x < pow2 (e + 1)"
  shows "ilog2 x = e"
proof (rule ccontr)
  assume ne: "ilog2 x \<noteq> e"
  show False
  proof (cases "ilog2 x < e")
    case True
    then have "pow2 (ilog2 x + 1) \<le> pow2 e" by (intro pow2_mono) simp
    then show False using ilog2_upper [OF assms(1)] assms(2) by linarith
  next
    case False
    then have "pow2 (e + 1) \<le> pow2 (ilog2 x)" using ne by (intro pow2_mono) simp
    then show False using ilog2_lower [OF assms(1)] assms(3) by linarith
  qed
qed

lemma add_double_saturates: "add_double 9007199254740992 1 = 9007199254740992"
proof -
  have e: "ilog2 9007199254740993 = 53"
    by (rule ilog2_unique) (simp_all add: pow2_def)
  have "pow2 (53 - 52) = 2" by (simp add: pow2_def)
  then have "round_double 9007199254740993 = of_int (rne (9007199254740993 / 2)) * 2"
    by (simp add: round_double_def e)
  moreover have "rne (9007199254740993 / 2) = 4503599627370496"
    by code_simp
  ultimately have "round_double 9007199254740993 = 9007199254740992" by simp
  then show ?thesis by (simp add: add_double_def)
qed

subsection \<open>setHabits\<close>

text \<open>
  C8. For every store state and every list, \<open>setHabits\<close> makes the given list the habit
  collection, whatever the list contains, and leaves \<open>user\<close>, \<open>weeklySummary\<close>,
  \<open>failureAnalysis\<close>, \<open>weeklyProgress\<close>, \<open>isLoading\<close>, \<open>error\<close> and \<open>selectedHabitId\<close>
  as they were.
\<close>

theorem setHabits_replaces_frame:
  "habits (setHabits hs s) = hs \<and>
   user (setHabits hs s) = user s \<and>
   weeklySummary (setHabits hs s) = weeklySummary s \<and>
   failureAnalysis (setHabits hs s) = failureAnalysis s \<and>
   weeklyProgress (setHabits hs s) = weeklyProgress s \<and>
   isLoading (setHabits hs s) = isLoading s \<and>
   error (setHabits hs s) = error s \<and>
   selectedHabitId (setHabits hs s) = selectedHabitId s"
  by (simp add: setHabits_def)

subsection \<open>completeHabit\<close>

lemma nth_completeHabit:
  "k < length (habits s) \<Longrightarrow>
   habits (completeHabit i s) ! k =
     (if id_h (habits s ! k) = i
      then (habits s ! k)\<lparr>is_completed_today := True,
             total_completions := add_double (total_completions (habits s ! k)) 1,
             current_streak := add_double (current_streak (habits s ! k)) 1\<rparr>
      else habits s ! k)"
  by (simp add: completeHabit_def)

lemma length_completeHabit: "length (habits (completeHabit i s)) = length (habits s)"
  by (simp add: completeHabit_def)

lemma completeHabit_absent:
  assumes "i \<notin> id_h ` set (habits s)"
  shows "completeHabit i s = s"
proof -
  from assms have "\<forall>h \<in> set (habits s). id_h h \<noteq> i" by auto
  then have "map (\<lambda>h. if id_h h = i
                  then h\<lparr>is_completed_today := True,
                         total_completions := add_double (total_completions h) 1,
                         current_streak := add_double (current_streak h) 1\<rparr>
                  else h) (habits s) = habits s"
    by (simp add: map_idI)
  then show ?thesis by (simp add: completeHabit_def)
qed

text \<open>
  C1. For every store and id: at every position whose habit has the given id,
  \<open>completeHabit\<close> sets \<open>is_completed_today\<close> and adds exactly 1 to \<open>total_completions\<close>
  and to \<open>current_streak\<close>; there is no guard on a habit already completed, so a second
  call adds 1 again (2 in total). The additions are additions of doubles, and they are
  exact where the incremented counter is a safe integer (of magnitude below \<open>2 ^ 53\<close>);
  that is the hypothesis of each counter equation. The collection keeps its length, and
  when no habit has the id the store is unchanged.
\<close>

theorem completeHabit_effect:
  "(\<forall>k < length (habits s). id_h (habits s ! k) = i \<longrightarrow>
      is_completed_today (habits (completeHabit i s) ! k) \<and>
      (isSafeInteger (total_completions (habits s ! k) + 1) \<longrightarrow>
         total_completions (habits (completeHabit i s) ! k)
           = total_completions (habits s ! k) + 1) \<and>
      (isSafeInteger (current_streak (habits s ! k) + 1) \<longrightarrow>
         current_streak (habits (completeHabit i s) ! k) = current_streak (habits s ! k) + 1) \<and>
      is_completed_today (habits (completeHabit i (completeHabit i s)) ! k) \<and>
      (isSafeInteger (total_completions (habits s ! k) + 1) \<and>
       isSafeInteger (total_completions (habits s ! k) + 2) \<longrightarrow>
         total_completions (habits (completeHabit i (completeHabit i s)) ! k)
           = total_completions (habits s ! k) + 2) \<and>
      (isSafeInteger (current_streak (habits s ! k) + 1) \<and>
       isSafeInteger (current_streak (habits s ! k) + 2) \<longrightarrow>
         current_streak (habits (completeHabit i (completeHabit i s)) ! k)
           = current_streak (habits s ! k) + 2)) \<and>
   length (habits (completeHabit i s)) = length (habits s) \<and>
   (i \<notin> id_h ` set (habits s) \<longrightarrow> completeHabit i s = s)"
proof (intro conjI allI impI)
  fix k assume k: "k < length (habits s)" and m: "id_h (habits s ! k) = i"
  define h where "h = habits s ! k"
  define h1 where "h1 = habits (completeHabit i s) ! k"
  define h2 where "h2 = habits (completeHabit i (completeHabit i s)) ! k"
  have k': "k < length (habits (completeHabit i s))" using k by (simp add: length_completeHabit)
  have one: "h1 = h\<lparr>is_completed_today := True,
             total_completions := add_double (total_completions h) 1,
             current_streak := add_double (current_streak h) 1\<rparr>"
    unfolding h1_def h_def using nth_completeHabit [OF k, of i] m by simp
  have m': "id_h h1 = i" using one m by (simp add: h_def)
  have two: "h2 = h1\<lparr>is_completed_today := True,
             total_completions := add_double (total_completions h1) 1,
             current_streak := add_double (current_streak h1) 1\<rparr>"
    unfolding h2_def using nth_completeHabit [OF k', of i] m' by (simp add: h1_def)
  show "is_completed_today h1" using one by simp
  show "is_completed_today h2" using two by simp
  { assume "isSafeInteger (total_completions h + 1)"
    then show "total_completions h1 = total_completions h + 1"
      using one by (simp add: add_double_exact) }
  { assume "isSafeInteger (current_streak h + 1)"
    then show "current_streak h1 = current_streak h + 1"
      using one by (simp add: add_double_exact) }
  { assume a: "isSafeInteger (total_completions h + 1) \<and> isSafeInteger (total_completions h + 2)"
    then have "total_completions h1 = total_completions h + 1"
      using one by (simp add: add_double_exact)
    moreover have "total_completions h + 1 + 1 = total_completions h + 2" by simp
    then have "isSafeInteger (total_completions h + 1 + 1)" using a by (simp only:)
    ultimately show "total_completions h2 = total_completions h + 2"
      using two by (simp add: add_double_exact) }
  { assume a: "isSafeInteger (current_streak h + 1) \<and> isSafeInteger (current_streak h + 2)"
    then have "current_streak h1 = current_streak h + 1"
      using one by (simp add: add_double_exact)
    moreover have "current_streak h + 1 + 1 = current_streak h + 2" by simp
    then have "isSafeInteger (current_streak h + 1 + 1)" using a by (simp only:)
    ultimately show "current_streak h2 = current_streak h + 2"
      using two by (simp add: add_double_exact) }
next
  show "length (habits (completeHabit i s)) = length (habits s)" by (rule length_completeHabit)
next
  assume "i \<notin> id_h ` set (habits s)"
  then show "completeHabit i s = s" by (rule completeHabit_absent)
qed

theorem completeHabit_effect_witness:
  "0 < length (habits one_state) \<and> id_h (habits one_state ! 0) = 1 \<and>
   isSafeInteger (total_completions (habits one_state ! 0) + 1) \<and>
   isSafeInteger (total_completions (habits one_state ! 0) + 2) \<and>
   isSafeInteger (current_streak (habits one_state ! 0) + 1) \<and>
   isSafeInteger (current_streak (habits one_state ! 0) + 2) \<and>
   is_completed_today (habits (completeHabit 1 one_state) ! 0) \<and>
   total_completions (habits (completeHabit 1 one_state) ! 0) = 1 \<and>
   current_streak (habits (completeHabit 1 one_state) ! 0) = 1 \<and>
   total_completions (habits (completeHabit 1 (completeHabit 1 one_state)) ! 0) = 2 \<and>
   current_streak (habits (completeHabit 1 (completeHabit 1 one_state)) ! 0) = 2 \<and>
   2 \<notin> id_h ` set (habits one_state) \<and> completeHabit 2 one_state = one_state"
proof -
  have a: "0 < length (habits one_state)" "id_h (habits one_state ! 0) = 1"
    "total_completions (habits one_state ! 0) = 0" "current_streak (habits one_state ! 0) = 0"
    "2 \<notin> id_h ` set (habits one_state)"
    by (simp_all add: one_state_def setHabits_def sample_habit_def)
  have b: "isSafeInteger (0 + 1)" "isSafeInteger (0 + 2)"
    by (simp_all add: isSafeInteger_def)
  from completeHabit_effect [of one_state 1] completeHabit_effect [of one_state 2] a b
  show ?thesis by simp
qed

subsection \<open>getStreakData\<close>

lemma fold_min_number:
  "fold (\<lambda>x acc. min_number acc (Fin x)) xs (Fin a) = Fin (fold min xs a)"
  by (induction xs arbitrary: a) (simp_all add: min.commute)

lemma fold_max_number:
  "fold (\<lambda>x acc. max_number acc (Fin x)) xs (Fin a) = Fin (fold max xs a)"
  by (induction xs arbitrary: a) (simp_all add: max.commute)

lemma Math_min_Cons: "Math_min (x # xs) = Fin (Min (set (x # xs)))"
  by (simp add: Math_min_def fold_min_number Min.set_eq_fold del: set_simps)

lemma Math_max_Cons: "Math_max (x # xs) = Fin (Max (set (x # xs)))"
  by (simp add: Math_max_def fold_max_number Max.set_eq_fold del: set_simps)

text \<open>
  C3. For every store, \<open>getStreakData\<close> returns the minimum of the habits'
  \<open>current_streak\<close> values as \<open>current\<close> and the maximum of their \<open>best_streak\<close> values
  as \<open>best\<close>; both are 0 when there is no habit.
\<close>

theorem getStreakData_min_max:
  "(habits s \<noteq> [] \<longrightarrow>
      current (getStreakData s) = Fin (Min (set (map current_streak (habits s)))) \<and>
      best (getStreakData s) = Fin (Max (set (map best_streak (habits s))))) \<and>
   (habits s = [] \<longrightarrow>
      current (getStreakData s) = Fin 0 \<and> best (getStreakData s) = Fin 0)"
proof (cases "habits s")
  case Nil
  then show ?thesis by (simp add: getStreakData_def)
next
  case (Cons h hs)
  have "Math_min (map current_streak (h # hs)) = Fin (Min (set (map current_streak (h # hs))))"
    unfolding list.map by (rule Math_min_Cons)
  moreover have "Math_max (map best_streak (h # hs)) = Fin (Max (set (map best_streak (h # hs))))"
    unfolding list.map by (rule Math_max_Cons)
  ultimately show ?thesis using Cons by (simp add: getStreakData_def Let_def)
qed

theorem getStreakData_min_max_witness:
  "habits streak_state \<noteq> [] \<and>
   current (getStreakData streak_state) = Fin 3 \<and>
   best (getStreakData streak_state) = Fin 7 \<and>
   habits initial_state = [] \<and>
   current (getStreakData initial_state) = Fin 0 \<and>
   best (getStreakData initial_state) = Fin 0"
  using getStreakData_min_max [of streak_state] getStreakData_min_max [of initial_state]
  by (simp add: streak_state_def setHabits_def initial_state_def sample_habit_def)

subsection \<open>Persistence round trip\<close>

text \<open>
  C4. For every store state and every prior content of the storage, writing the state and
  starting again gives a store with the same \<open>user\<close> and \<open>habits\<close>, and with
  \<open>weeklySummary\<close>, \<open>failureAnalysis\<close>, \<open>weeklyProgress\<close>, \<open>isLoading\<close>, \<open>error\<close> and
  \<open>selectedHabitId\<close> at their initial values (null, null, null, false, null, null):
  only \<open>user\<close> and \<open>habits\<close> go into the slot under the fixed key.
\<close>

theorem persist_reload_roundtrip:
  "rehydrate (persist_write s st) =
     \<lparr> habits = habits s, user = user s, weeklySummary = None, failureAnalysis = None,
       weeklyProgress = None, isLoading = False, error = None, selectedHabitId = None \<rparr>"
  by (simp add: rehydrate_def persist_write_def partialize_def initial_state_def)

subsection \<open>Unmatched ids\<close>

text \<open>
  C5. For every store and every id that no habit carries, \<open>updateHabit\<close> and \<open>removeHabit\<close>
  return the store unchanged. The actions are total functions to the next state with no
  error value, so this case gives the caller nothing that a successful update would not.
\<close>

theorem unmatched_id_noop:
  assumes "i \<notin> id_h ` set (habits s)"
  shows "updateHabit i updates s = s \<and> removeHabit i s = s"
proof -
  have ne: "\<forall>h \<in> set (habits s). id_h h \<noteq> i" using assms by auto
  have "map (\<lambda>h. if id_h h = i then spread h updates else h) (habits s) = habits s"
    using ne by (simp add: map_idI)
  moreover have "filter (\<lambda>h. id_h h \<noteq> i) (habits s) = habits s"
    using ne by simp
  ultimately show ?thesis by (simp add: updateHabit_def removeHabit_def)
qed

theorem unmatched_id_noop_witness:
  "2 \<notin> id_h ` set (habits one_state) \<and>
   updateHabit 2 (rename ''Walk'') one_state = one_state \<and>
   removeHabit 2 one_state = one_state"
proof -
  have h: "2 \<notin> id_h ` set (habits one_state)"
    by (simp add: one_state_def setHabits_def sample_habit_def)
  from unmatched_id_noop [OF h] h show ?thesis by simp
qed

subsection \<open>updateHabit\<close>

lemma nth_updateHabit:
  "k < length (habits s) \<Longrightarrow>
   habits (updateHabit i u s) ! k =
     (if id_h (habits s ! k) = i then spread (habits s ! k) u else habits s ! k)"
  by (simp add: updateHabit_def)

lemma length_updateHabit: "length (habits (updateHabit i u s)) = length (habits s)"
  by (simp add: updateHabit_def)

lemma distinct_ids_nth:
  assumes "distinct (map id_h hs)" "k < length hs" "j < length hs" "j \<noteq> k"
  shows "id_h (hs ! j) \<noteq> id_h (hs ! k)"
proof -
  have "(map id_h hs ! j = map id_h hs ! k) = (j = k)"
    using assms by (intro nth_eq_iff_index_eq) simp_all
  moreover have "map id_h hs ! j = id_h (hs ! j)" "map id_h hs ! k = id_h (hs ! k)"
    using assms by (simp_all only: nth_map)
  ultimately show ?thesis using assms(4) by simp
qed

text \<open>
  C6, as stated (the fields go into one single habit and every other habit is
  unaffected), fails on a collection where two habits carry the id: both are rewritten.
  Such a collection is reached by two \<open>addHabit\<close> calls, which do not check the id.
\<close>

theorem updateHabit_single_counterexample:
  "id_h (habits dup_state ! 0) = 1 \<and> id_h (habits dup_state ! 1) = 1 \<and>
   habits dup_state ! 0 \<noteq> habits dup_state ! 1 \<and>
   habits (updateHabit 1 (rename ''Walk'') dup_state) ! 0 \<noteq> habits dup_state ! 0 \<and>
   habits (updateHabit 1 (rename ''Walk'') dup_state) ! 1 \<noteq> habits dup_state ! 1"
  by (simp add: dup_state_def addHabit_def initial_state_def sample_habit_def updateHabit_def
      rename_def no_updates_def spread_def)

text \<open>
  C6, amended. \<open>updateHabit\<close> keeps the length of the collection, replaces every habit
  whose id equals the given id by its merge with the given fields (\<open>spread\<close>), and
  leaves every habit of another id as it is. When the ids of the collection are pairwise
  distinct, at most one habit matches, and every habit at another position is unaffected.
\<close>

theorem updateHabit_merges_matching:
  "length (habits (updateHabit i u s)) = length (habits s) \<and>
   (\<forall>k < length (habits s).
      (id_h (habits s ! k) = i \<longrightarrow> habits (updateHabit i u s) ! k = spread (habits s ! k) u) \<and>
      (id_h (habits s ! k) \<noteq> i \<longrightarrow> habits (updateHabit i u s) ! k = habits s ! k)) \<and>
   (distinct (map id_h (habits s)) \<longrightarrow>
      (\<forall>k < length (habits s). id_h (habits s ! k) = i \<longrightarrow>
         (\<forall>j < length (habits s). j \<noteq> k \<longrightarrow>
            habits (updateHabit i u s) ! j = habits s ! j)))"
proof (intro conjI allI impI)
  show "length (habits (updateHabit i u s)) = length (habits s)" by (rule length_updateHabit)
next
  fix k assume "k < length (habits s)" "id_h (habits s ! k) = i"
  then show "habits (updateHabit i u s) ! k = spread (habits s ! k) u"
    by (simp add: nth_updateHabit)
next
  fix k assume "k < length (habits s)" "id_h (habits s ! k) \<noteq> i"
  then show "habits (updateHabit i u s) ! k = habits s ! k"
    by (simp add: nth_updateHabit)
next
  fix k j
  assume d: "distinct (map id_h (habits s))" and k: "k < length (habits s)"
    and m: "id_h (habits s ! k) = i" and j: "j < length (habits s)" and jk: "j \<noteq> k"
  have "id_h (habits s ! j) \<noteq> i" using distinct_ids_nth [OF d k j jk] m by simp
  then show "habits (updateHabit i u s) ! j = habits s ! j"
    using j by (simp add: nth_updateHabit)
qed

theorem updateHabit_merges_matching_witness:
  "distinct (map id_h (habits streak_state)) \<and> (0::nat) < length (habits streak_state) \<and>
   (1::nat) < length (habits streak_state) \<and> (1::nat) \<noteq> 0 \<and>
   id_h (habits streak_state ! 0) = 1 \<and> id_h (habits streak_state ! 1) \<noteq> 1 \<and>
   name (habits (updateHabit 1 (rename ''Walk'') streak_state) ! 0) = ''Walk'' \<and>
   habits (updateHabit 1 (rename ''Walk'') streak_state) ! 0
     = spread (habits streak_state ! 0) (rename ''Walk'') \<and>
   habits (updateHabit 1 (rename ''Walk'') streak_state) ! 1 = habits streak_state ! 1"
proof -
  have a: "distinct (map id_h (habits streak_state))" "(0::nat) < length (habits streak_state)"
    "(1::nat) < length (habits streak_state)" "id_h (habits streak_state ! 0) = 1"
    "id_h (habits streak_state ! 1) \<noteq> 1"
    by (simp_all add: streak_state_def setHabits_def sample_habit_def)
  have n: "name (spread (habits streak_state ! 0) (rename ''Walk'')) = ''Walk''"
    by (simp add: spread_def rename_def no_updates_def)
  from updateHabit_merges_matching [of 1 "rename ''Walk''" streak_state] a n
  show ?thesis by simp
qed

subsection \<open>removeHabit and addHabit\<close>

text \<open>
  C7, as stated (exactly one element is removed), fails on the collection with two habits
  of id 1 built by two \<open>addHabit\<close> calls: \<open>removeHabit 1\<close> removes both.
\<close>

theorem removeHabit_single_counterexample:
  "dup_state = addHabit (sample_habit 1 ''Run'') (addHabit (sample_habit 1 ''Read'') initial_state) \<and>
   1 \<in> id_h ` set (habits dup_state) \<and>
   length (habits dup_state) = 2 \<and>
   length (habits (removeHabit 1 dup_state)) = 0"
  by (simp add: dup_state_def addHabit_def initial_state_def sample_habit_def removeHabit_def)

lemma filter_single_match:
  assumes "id_h h = i" "i \<notin> id_h ` set xs" "i \<notin> id_h ` set ys"
  shows "filter (\<lambda>h. id_h h \<noteq> i) (xs @ h # ys) = xs @ ys"
proof -
  have "filter (\<lambda>h. id_h h \<noteq> i) xs = xs" using assms(2) by (auto intro: filter_True)
  moreover have "filter (\<lambda>h. id_h h \<noteq> i) ys = ys" using assms(3) by (auto intro: filter_True)
  ultimately show ?thesis using assms(1) by simp
qed

text \<open>
  C7, amended. \<open>removeHabit\<close> keeps exactly the habits of another id, in their order
  (the result is a subsequence of the collection), so the number of removed elements is
  the number of habits carrying the id; when exactly one habit carries it, exactly that
  element is removed. \<open>addHabit\<close> appends the habit at the end without looking at its
  id, and two additions appear in the order they were made.
\<close>

theorem removeHabit_addHabit_effect:
  "habits (removeHabit i s) = filter (\<lambda>h. id_h h \<noteq> i) (habits s) \<and>
   subseq (habits (removeHabit i s)) (habits s) \<and>
   length (habits (removeHabit i s)) + length (filter (\<lambda>h. id_h h = i) (habits s))
     = length (habits s) \<and>
   (\<forall>xs h ys. habits s = xs @ h # ys \<and> id_h h = i \<and>
        i \<notin> id_h ` set xs \<and> i \<notin> id_h ` set ys \<longrightarrow>
      habits (removeHabit i s) = xs @ ys) \<and>
   habits (addHabit a s) = habits s @ [a] \<and>
   habits (addHabit b (addHabit a s)) = habits s @ [a, b]"
proof (intro conjI allI impI)
  show "habits (removeHabit i s) = filter (\<lambda>h. id_h h \<noteq> i) (habits s)"
    by (simp add: removeHabit_def)
  show "subseq (habits (removeHabit i s)) (habits s)"
    by (simp add: removeHabit_def)
  show "length (habits (removeHabit i s)) + length (filter (\<lambda>h. id_h h = i) (habits s))
     = length (habits s)"
    using sum_length_filter_compl [of "\<lambda>h. id_h h = i" "habits s"]
    by (simp add: removeHabit_def)
  show "habits (addHabit a s) = habits s @ [a]" by (simp add: addHabit_def)
  show "habits (addHabit b (addHabit a s)) = habits s @ [a, b]" by (simp add: addHabit_def)
next
  fix xs h ys
  assume a: "habits s = xs @ h # ys \<and> id_h h = i \<and> i \<notin> id_h ` set xs \<and> i \<notin> id_h ` set ys"
  then have "filter (\<lambda>h. id_h h \<noteq> i) (xs @ h # ys) = xs @ ys"
    by (intro filter_single_match) simp_all
  then show "habits (removeHabit i s) = xs @ ys"
    using a by (simp add: removeHabit_def)
qed

theorem removeHabit_addHabit_effect_witness:
  "habits streak_state = [] @ (habits streak_state ! 0) # [habits streak_state ! 1] \<and>
   id_h (habits streak_state ! 0) = 1 \<and> 1 \<notin> id_h ` set [] \<and>
   1 \<notin> id_h ` set [habits streak_state ! 1] \<and>
   habits (removeHabit 1 streak_state) = [] @ [habits streak_state ! 1] \<and>
   length (habits (removeHabit 1 streak_state)) = 1 \<and>
   habits (addHabit (sample_habit 1 ''Run'') streak_state)
     = habits streak_state @ [sample_habit 1 ''Run'']"
proof -
  have a: "habits streak_state = [] @ (habits streak_state ! 0) # [habits streak_state ! 1]"
    "id_h (habits streak_state ! 0) = 1" "1 \<notin> id_h ` set ([] :: Habit list)"
    "1 \<notin> id_h ` set [habits streak_state ! 1]"
    by (simp_all add: streak_state_def setHabits_def sample_habit_def)
  have "habits (removeHabit 1 streak_state) = [] @ [habits streak_state ! 1]"
    using removeHabit_addHabit_effect [of 1 streak_state] a by blast
  moreover have "habits (addHabit (sample_habit 1 ''Run'') streak_state)
     = habits streak_state @ [sample_habit 1 ''Run'']"
    using removeHabit_addHabit_effect [of 1 streak_state "sample_habit 1 ''Run''"] by blast
  ultimately show ?thesis using a by simp
qed

subsection \<open>Frame and order of completeHabit and updateHabit\<close>

text \<open>
  C9. At every position whose habit has the given id, \<open>completeHabit\<close> changes
  \<open>is_completed_today\<close>, \<open>total_completions\<close> and \<open>current_streak\<close> only: \<open>best_streak\<close>
  and every other field keep their values. Hence a habit whose current streak had reached
  its best streak, and whose incremented streak is a safe integer (so that the addition
  of doubles is exact), has a current streak above its best streak afterwards: the store
  does not keep \<open>best_streak\<close> as the running maximum.
\<close>

theorem completeHabit_frame:
  assumes "k < length (habits s)" and "id_h (habits s ! k) = i"
  shows "habits (completeHabit i s) ! k =
           (habits s ! k)\<lparr>is_completed_today := True,
              total_completions := add_double (total_completions (habits s ! k)) 1,
              current_streak := add_double (current_streak (habits s ! k)) 1\<rparr> \<and>
         best_streak (habits (completeHabit i s) ! k) = best_streak (habits s ! k) \<and>
         id_h (habits (completeHabit i s) ! k) = id_h (habits s ! k) \<and>
         name (habits (completeHabit i s) ! k) = name (habits s ! k) \<and>
         description (habits (completeHabit i s) ! k) = description (habits s ! k) \<and>
         emoji (habits (completeHabit i s) ! k) = emoji (habits s ! k) \<and>
         reminder_time (habits (completeHabit i s) ! k) = reminder_time (habits s ! k) \<and>
         frequency (habits (completeHabit i s) ! k) = frequency (habits s ! k) \<and>
         target_days (habits (completeHabit i s) ! k) = target_days (habits s ! k) \<and>
         is_active (habits (completeHabit i s) ! k) = is_active (habits s ! k) \<and>
         progress_percentage (habits (completeHabit i s) ! k)
           = progress_percentage (habits s ! k) \<and>
         created_at (habits (completeHabit i s) ! k) = created_at (habits s ! k) \<and>
         (isSafeInteger (current_streak (habits s ! k) + 1) \<and>
          best_streak (habits s ! k) \<le> current_streak (habits s ! k) \<longrightarrow>
            best_streak (habits (completeHabit i s) ! k)
              < current_streak (habits (completeHabit i s) ! k))"
proof -
  have one: "habits (completeHabit i s) ! k =
      (habits s ! k)\<lparr>is_completed_today := True,
             total_completions := add_double (total_completions (habits s ! k)) 1,
             current_streak := add_double (current_streak (habits s ! k)) 1\<rparr>"
    using nth_completeHabit [OF assms(1), of i] assms(2) by simp
  show ?thesis unfolding one by (simp add: add_double_exact)
qed

theorem completeHabit_frame_witness:
  "0 < length (habits one_state) \<and> id_h (habits one_state ! 0) = 1 \<and>
   isSafeInteger (current_streak (habits one_state ! 0) + 1) \<and>
   best_streak (habits one_state ! 0) \<le> current_streak (habits one_state ! 0) \<and>
   best_streak (habits (completeHabit 1 one_state) ! 0) = 0 \<and>
   best_streak (habits (completeHabit 1 one_state) ! 0)
     < current_streak (habits (completeHabit 1 one_state) ! 0)"
proof -
  have a: "0 < length (habits one_state)" "id_h (habits one_state ! 0) = 1"
    "best_streak (habits one_state ! 0) = 0" "current_streak (habits one_state ! 0) = 0"
    by (simp_all add: one_state_def setHabits_def sample_habit_def)
  have c: "isSafeInteger (current_streak (habits one_state ! 0) + 1)"
    "best_streak (habits one_state ! 0) \<le> current_streak (habits one_state ! 0)"
    by (simp_all add: a isSafeInteger_def)
  note f = completeHabit_frame [OF a(1) a(2)]
  have "best_streak (habits (completeHabit 1 one_state) ! 0) = best_streak (habits one_state ! 0)"
    using f by (elim conjE)
  then have d: "best_streak (habits (completeHabit 1 one_state) ! 0) = 0" using a(3) by simp
  have e: "best_streak (habits (completeHabit 1 one_state) ! 0)
     < current_streak (habits (completeHabit 1 one_state) ! 0)"
    using f c by (elim conjE) simp
  show ?thesis using a(1) a(2) c d e by (intro conjI)
qed

lemma id_spread: "upd_id u = None \<Longrightarrow> id_h (spread h u) = id_h h"
  by (simp add: spread_def)

text \<open>
  C10. \<open>updateHabit\<close> with fields that do not contain the id, and \<open>completeHabit\<close>,
  keep the length of the collection and the id at every position: the sequence of ids is
  the same before and after.
\<close>

theorem ids_sequence_invariant:
  "(upd_id u = None \<longrightarrow>
      length (habits (updateHabit i u s)) = length (habits s) \<and>
      map id_h (habits (updateHabit i u s)) = map id_h (habits s) \<and>
      (\<forall>k < length (habits s). id_h (habits (updateHabit i u s) ! k) = id_h (habits s ! k))) \<and>
   length (habits (completeHabit i s)) = length (habits s) \<and>
   map id_h (habits (completeHabit i s)) = map id_h (habits s) \<and>
   (\<forall>k < length (habits s). id_h (habits (completeHabit i s) ! k) = id_h (habits s ! k))"
proof (intro conjI allI impI)
  assume u: "upd_id u = None"
  show "length (habits (updateHabit i u s)) = length (habits s)"
    by (simp add: updateHabit_def)
  show "map id_h (habits (updateHabit i u s)) = map id_h (habits s)"
    using u by (simp add: updateHabit_def id_spread)
  fix k assume "k < length (habits s)"
  then show "id_h (habits (updateHabit i u s) ! k) = id_h (habits s ! k)"
    using u by (simp add: updateHabit_def id_spread)
next
  show "length (habits (completeHabit i s)) = length (habits s)"
    by (simp add: completeHabit_def)
  show "map id_h (habits (completeHabit i s)) = map id_h (habits s)"
    by (simp add: completeHabit_def)
  fix k assume "k < length (habits s)"
  then show "id_h (habits (completeHabit i s) ! k) = id_h (habits s ! k)"
    by (simp add: completeHabit_def)
qed

theorem ids_sequence_invariant_witness:
  "upd_id (rename ''Walk'') = None \<and> (1::nat) < length (habits streak_state) \<and>
   map id_h (habits (updateHabit 1 (rename ''Walk'') streak_state)) = [1, 2] \<and>
   id_h (habits (updateHabit 1 (rename ''Walk'') streak_state) ! 1) = 2 \<and>
   map id_h (habits (completeHabit 1 streak_state)) = [1, 2] \<and>
   id_h (habits (completeHabit 1 streak_state) ! 1) = 2"
proof -
  have a: "upd_id (rename ''Walk'') = None" "(1::nat) < length (habits streak_state)"
    "map id_h (habits streak_state) = [1, 2]" "id_h (habits streak_state ! 1) = 2"
    by (simp_all add: rename_def no_updates_def streak_state_def setHabits_def sample_habit_def)
  from ids_sequence_invariant [of "rename ''Walk''" 1 streak_state] a show ?thesis by simp
qed

subsection \<open>getTodayProgress\<close>

text \<open>
  For \<open>c\<close> completed habits of \<open>n\<close>, the double computed by the code is within
  \<open>300 / 2 ^ 53\<close> of the exact percentage \<open>100 c / n\<close>.
\<close>

lemma round_double_nonneg:
  assumes "0 \<le> x"
  shows "0 \<le> round_double x"
proof -
  have "x / 2 ^ 53 \<le> x" using assms by (simp add: field_simps)
  then show ?thesis using round_double_error [OF assms] by linarith
qed

lemma progress_double_error:
  fixes c n :: nat
  assumes "c \<le> n" and "0 < n"
  defines "q \<equiv> rat_of_nat c / rat_of_nat n"
  shows "\<bar>round_double (round_double q * 100) - 100 * q\<bar> \<le> 300 / 2 ^ 53"
    and "0 \<le> round_double (round_double q * 100)"
proof -
  have q: "0 \<le> q" "q \<le> 1" using assms by (simp_all add: q_def)
  define y where "y = round_double q"
  have "q / 2 ^ 53 \<le> 1 / 2 ^ 53" using q(2) by (simp add: divide_right_mono)
  then have ey: "\<bar>y - q\<bar> \<le> 1 / 2 ^ 53"
    using round_double_error [OF q(1)] unfolding y_def by linarith
  have y1: "0 \<le> y" using round_double_nonneg [OF q(1)] unfolding y_def .
  have "(1::rat) / 2 ^ 53 \<le> 1" by simp
  then have y2: "y \<le> 2" using ey q(2) by linarith
  note y = y1 y2
  define z where "z = round_double (y * 100)"
  have w: "0 \<le> y * 100" using y(1) by simp
  have "y * 100 / 2 ^ 53 \<le> 200 / 2 ^ 53" using y(2) by (simp add: divide_right_mono)
  then have ez: "\<bar>z - y * 100\<bar> \<le> 200 / 2 ^ 53"
    using round_double_error [OF w] unfolding z_def by linarith
  have "z - 100 * q = (z - y * 100) + 100 * (y - q)" by simp
  then have "\<bar>z - 100 * q\<bar> \<le> \<bar>z - y * 100\<bar> + \<bar>100 * (y - q)\<bar>"
    by (simp only: abs_triangle_ineq)
  also have "\<bar>100 * (y - q)\<bar> = 100 * \<bar>y - q\<bar>" by (subst abs_mult) simp
  finally have "\<bar>z - 100 * q\<bar> \<le> \<bar>z - y * 100\<bar> + 100 * \<bar>y - q\<bar>" .
  also have "\<dots> \<le> 200 / 2 ^ 53 + 100 * (1 / 2 ^ 53)"
    using ez ey by (intro add_mono mult_left_mono) simp_all
  finally show "\<bar>round_double (round_double q * 100) - 100 * q\<bar> \<le> 300 / 2 ^ 53"
    unfolding z_def y_def by simp
  show "0 \<le> round_double (round_double q * 100)"
    using round_double_nonneg [OF w] unfolding y_def .
qed

lemma floor_near_fraction:
  fixes a b :: int and v e :: rat
  assumes b: "0 < b" and e: "0 \<le> e" "e * of_int b < 1" and v: "\<bar>v - of_int a / of_int b\<bar> \<le> e"
  defines "k \<equiv> \<lfloor>rat_of_int a / rat_of_int b\<rfloor>"
  shows "k - 1 \<le> \<lfloor>v\<rfloor>" and "\<lfloor>v\<rfloor> \<le> k" and "\<not> b dvd a \<Longrightarrow> \<lfloor>v\<rfloor> = k"
proof -
  define t where "t = rat_of_int a / rat_of_int b"
  have bpos: "0 < rat_of_int b" using b by simp
  have kdiv: "k = a div b" unfolding k_def by (simp add: floor_divide_of_int_eq)
  have e1: "e < 1 / of_int b" using e(2) bpos by (simp add: field_simps)
  have e2: "e < 1"
  proof -
    have "1 / rat_of_int b \<le> 1" using b by simp
    then show ?thesis using e1 by linarith
  qed
  have lo: "of_int k \<le> t" unfolding k_def t_def by simp
  have "a < (k + 1) * b"
    unfolding kdiv using b by (metis div_mult_mod_eq distrib_right mult_1 pos_mod_bound add_strict_left_mono)
  then have "a + 1 \<le> (k + 1) * b" by simp
  then have "rat_of_int (a + 1) \<le> rat_of_int ((k + 1) * b)" by (simp only: of_int_le_iff)
  then have "rat_of_int a + 1 \<le> (of_int k + 1) * of_int b" by simp
  then have hi: "t + 1 / of_int b \<le> of_int k + 1"
    unfolding t_def using bpos by (simp add: field_simps)
  have vt: "t - e \<le> v" "v \<le> t + e" using v unfolding t_def by linarith+
  have "v < of_int (k + 1)" using vt(2) hi e1 by simp
  then have "\<lfloor>v\<rfloor> < k + 1" by (simp only: floor_less_iff)
  then show up: "\<lfloor>v\<rfloor> \<le> k" by simp
  have "of_int (k - 1) \<le> v" using vt(1) lo e2 by simp
  then show "k - 1 \<le> \<lfloor>v\<rfloor>" by (simp add: le_floor_iff)
  assume nd: "\<not> b dvd a"
  have "0 \<le> a mod b" using b by simp
  moreover have "a = k * b + a mod b" unfolding kdiv by simp
  ultimately have "k * b \<le> a" by linarith
  moreover have "k * b \<noteq> a" using nd by (metis dvd_triv_right)
  ultimately have "k * b + 1 \<le> a" using \<open>k * b \<le> a\<close> by simp
  then have "rat_of_int (k * b + 1) \<le> rat_of_int a" by (simp only: of_int_le_iff)
  then have "of_int k * rat_of_int b + 1 \<le> rat_of_int a" by simp
  then have "(of_int k * rat_of_int b + 1) / rat_of_int b \<le> rat_of_int a / rat_of_int b"
    using bpos by (intro divide_right_mono) simp_all
  moreover have "(of_int k * rat_of_int b + 1) / rat_of_int b = of_int k + 1 / of_int b"
    using bpos by (simp add: add_divide_distrib)
  ultimately have "of_int k + 1 / of_int b \<le> t"
    unfolding t_def by simp
  then have "of_int k \<le> v" using vt(1) e1 by linarith
  then have "k \<le> \<lfloor>v\<rfloor>" by (simp add: le_floor_iff)
  then show "\<lfloor>v\<rfloor> = k" using up by simp
qed

text \<open>
  The model agrees with the known doubles: 0.1 is \<open>3602879701896397 / 2 ^ 55\<close>, and
  0.575 is \<open>5179139571476070 / 2 ^ 53\<close>, just below 23/40.
\<close>

lemma round_double_examples:
  "round_double (1 / 10) = 3602879701896397 / 2 ^ 55"
  "round_double (1 / 2) = 1 / 2"
  "round_double (23 / 40) = 5179139571476070 / 2 ^ 53"
  "round_double (round_double (23 / 40) * 100) = 8092405580431359 / 2 ^ 47"
  by code_simp+

text \<open>
  What holds of \<open>getTodayProgress\<close> on every store: it is 0 on the empty collection, it
  lies between 0 and 100, and it is the value of the specification or one less; it is
  the value of the specification whenever \<open>100 c / n\<close> is not exactly halfway between two
  integers, that is, whenever \<open>2 n\<close> does not divide \<open>200 c + n\<close>.
\<close>

lemma getTodayProgress_empty: "habits s = [] \<Longrightarrow> getTodayProgress s = 0"
  by (simp add: getTodayProgress_def)

lemma getTodayProgress_nonempty:
  assumes "habits s \<noteq> []"
  shows "getTodayProgress s =
     \<lfloor>round_double (round_double (rat_of_nat (getCompletedToday s) / rat_of_nat (length (habits s))) * 100)
        + 1 / 2\<rfloor>"
  using assms by (simp add: getTodayProgress_def getCompletedToday_def Math_round_def Let_def)

lemma getTodayProgress_range: "0 \<le> getTodayProgress s \<and> getTodayProgress s \<le> 100"
proof (cases "habits s = []")
  case True
  then show ?thesis by (simp add: getTodayProgress_empty)
next
  case False
  define c where "c = getCompletedToday s"
  define n where "n = length (habits s)"
  define Q where "Q = rat_of_nat c / rat_of_nat n"
  define z where "z = round_double (round_double Q * 100)"
  have cn: "c \<le> n" "0 < n" using False by (simp_all add: c_def n_def getCompletedToday_def)
  have q: "Q \<le> 1" using cn by (simp add: Q_def)
  have err: "\<bar>z - 100 * Q\<bar> \<le> 300 / 2 ^ 53" and z0: "0 \<le> z"
    unfolding z_def Q_def using progress_double_error [OF cn] by simp_all
  have "(300::rat) / 2 ^ 53 < 1 / 2" by simp
  then have "z - 100 * Q < 1 / 2" using err by linarith
  then have "z + 1 / 2 < of_int 101" using q by simp
  then have "\<lfloor>z + 1 / 2\<rfloor> < 101" by (simp only: floor_less_iff)
  moreover have "of_int 0 \<le> z + 1 / 2" using z0 by simp
  then have "0 \<le> \<lfloor>z + 1 / 2\<rfloor>" by (simp only: le_floor_iff)
  ultimately show ?thesis
    using getTodayProgress_nonempty [OF False] unfolding z_def Q_def c_def n_def by simp
qed

lemma getTodayProgress_vs_spec:
  assumes "length (habits s) < 2 ^ 32"
  shows "todayProgress_spec s - 1 \<le> getTodayProgress s"
    and "getTodayProgress s \<le> todayProgress_spec s"
    and "\<not> 2 * int (length (habits s)) dvd 200 * int (getCompletedToday s) + int (length (habits s))
         \<Longrightarrow> getTodayProgress s = todayProgress_spec s"
proof -
  define c where "c = getCompletedToday s"
  define n where "n = length (habits s)"
  define z where "z = round_double (round_double (rat_of_nat c / rat_of_nat n) * 100)"
  define a where "a = 200 * int c + int n"
  define b where "b = 2 * int n"
  define e :: rat where "e = 300 / 2 ^ 53"
  have all: "todayProgress_spec s - 1 \<le> getTodayProgress s \<and>
     getTodayProgress s \<le> todayProgress_spec s \<and>
     (\<not> b dvd a \<longrightarrow> getTodayProgress s = todayProgress_spec s)"
  proof (cases "habits s = []")
    case True
    then show ?thesis by (simp add: getTodayProgress_empty todayProgress_spec_def)
  next
    case False
    have cn: "c \<le> n" "0 < n" using False by (simp_all add: c_def n_def getCompletedToday_def)
    have npos: "0 < rat_of_nat n" using cn(2) by simp
    have frac: "rat_of_int a / rat_of_int b = 100 * (rat_of_nat c / rat_of_nat n) + 1 / 2"
      using npos by (simp add: a_def b_def field_simps)
    have err: "\<bar>z - 100 * (rat_of_nat c / rat_of_nat n)\<bar> \<le> e"
      unfolding z_def e_def using progress_double_error(1) [OF cn] .
    have v: "\<bar>(z + 1 / 2) - rat_of_int a / rat_of_int b\<bar> \<le> e"
      unfolding frac using err by simp
    have b: "0 < b" using cn(2) by (simp add: b_def)
    have e0: "0 \<le> e" by (simp add: e_def)
    have "n < 2 ^ 32" using assms by (simp add: n_def)
    then have "rat_of_nat n < rat_of_nat (2 ^ 32)" by (simp only: of_nat_less_iff)
    then have "rat_of_nat n < 2 ^ 32" by simp
    then have "e * rat_of_int b < 300 / 2 ^ 53 * (2 * 2 ^ 32)"
      unfolding e_def b_def by simp
    also have "\<dots> < 1" by simp
    finally have e1: "e * rat_of_int b < 1" .
    have spec: "todayProgress_spec s = \<lfloor>rat_of_int a / rat_of_int b\<rfloor>"
      using False unfolding frac
      by (simp add: todayProgress_spec_def round_def c_def n_def getCompletedToday_def)
    have code: "getTodayProgress s = \<lfloor>z + 1 / 2\<rfloor>"
      using getTodayProgress_nonempty [OF False] unfolding z_def c_def n_def .
    show ?thesis
      unfolding spec code
      using floor_near_fraction [OF b e0 e1 v] by simp
  qed
  show "todayProgress_spec s - 1 \<le> getTodayProgress s" using all by simp
  show "getTodayProgress s \<le> todayProgress_spec s" using all by simp
  assume "\<not> 2 * int (length (habits s)) dvd 200 * int (getCompletedToday s) + int (length (habits s))"
  then show "getTodayProgress s = todayProgress_spec s"
    using all unfolding a_def b_def c_def n_def by simp
qed

text \<open>
  The two scenarios of the specification: one fresh habit gives 0, and 100 after its
  completion; two habits of which one is completed give a count of 1 and 50.
\<close>

lemma getTodayProgress_scenarios:
  "getTodayProgress one_state = 0"
  "getTodayProgress (completeHabit 1 one_state) = 100"
  "getCompletedToday (completeHabit 1 streak_state) = 1"
  "getTodayProgress (completeHabit 1 streak_state) = 50"
  by code_simp+

text \<open>
  C2 says that the query equals the rounded value of 100 times the completed count over
  the total count. With 23 of 40 habits completed that value is 57.5, which rounds to 58.
  The code divides first: the double nearest to 23/40 lies below 0.575, its product with
  100 rounds to the double just below 57.5, and \<open>Math.round\<close> returns 57.
\<close>

theorem getTodayProgress_23_of_40:
  "length (habits forty_state) = 40 \<and>
   getCompletedToday forty_state = 23 \<and>
   getTodayProgress forty_state = 57 \<and>
   todayProgress_spec forty_state = 58"
  by code_simp

end
